theory Spec2Isabelle
  imports Complex_Main "HOL-Library.Finite_Map" "HOL-Library.Sublist" "HOL-Library.Multiset"
    "HOL-Library.Log_Nat"
begin

section \<open>SteamBubbles: the merge, aggregate, hide and rank core of \<open>App.tsx\<close>\<close>

text \<open>
  The development embeds the state-handling part of the React component \<open>App\<close>
  (file \<open>src/steam-bubbles/src/App.tsx\<close>): the merge map with its root lookup and its
  edit operations, the aggregation effect, the hidden set, the ranked selection and
  the two \<open>localStorage\<close> initialisers.

  Numbers: an appid is an \<open>int\<close>. The \<open>hours\<close> field is a JavaScript number, a
  double: its value is a \<open>real\<close>, and the sum of two of them is rounded to the nearest
  double (\<open>binary64_add\<close> below), as \<open>+\<close> and \<open>+=\<close> do in the source.
\<close>

subsection \<open>Data\<close>

text \<open>
  \<open>GameViz\<close> is the record the aggregation effect builds (fields as in the object
  literal of lines 338--344).
\<close>

record GameViz =
  appid :: int
  name :: string
  hours :: real
  img :: string
  storeUrl :: string

text \<open>
  \<open>type MergeMap = Record<number, number>\<close> (fromAppid -> toAppid): a JavaScript object,
  hence a finite map. \<open>map[cur] != null\<close> is \<open>fmlookup map cur \<noteq> None\<close>.
\<close>

type_synonym MergeMap = "(int, int) fmap"

text \<open>
  The part of the component state that \<open>addMerge\<close>, \<open>removeMerge\<close> and \<open>clearMerges\<close>
  read and write. \<open>mergeFrom\<close> and \<open>mergeTo\<close> have the type \<open>number | ""\<close>; \<open>None\<close> is
  the blank \<open>""\<close>.
\<close>

record merge_state =
  mergeFrom :: "int option"
  mergeTo :: "int option"
  mergeMap :: MergeMap
  error :: string

subsection \<open>The merge map\<close>

text \<open>
  \<^verbatim>\<open>
  function findMergeRoot(appid: number, map: MergeMap) {
    const seen = new Set<number>();
    let cur = appid;
    while (map[cur] != null && !seen.has(cur)) {
      seen.add(cur);
      cur = map[cur];
    }
    return cur;
  }
  \<close>
  The loop is \<open>findMergeRoot_loop\<close>, with the guard set \<open>seen\<close> and the cursor \<open>cur\<close> as
  arguments. It terminates on every map: each round moves a key of the map into \<open>seen\<close>.
\<close>

lemma guard_set_grows:
  assumes look: "fmlookup m cur = Some nxt" and fresh: "cur \<notin> seen"
  shows "card (fmdom' m - insert cur seen) < card (fmdom' m - seen)"
proof -
  have fin: "finite (fmdom' m - seen)"
    by simp
  have mem: "cur \<in> fmdom' m - seen"
    using look fresh by (simp add: fmdom'I)
  have "card ((fmdom' m - seen) - {cur}) < card (fmdom' m - seen)"
    using fin mem by (rule card_Diff1_less)
  moreover have "fmdom' m - insert cur seen = (fmdom' m - seen) - {cur}"
    by blast
  ultimately show ?thesis
    by simp
qed

function findMergeRoot_loop :: "MergeMap \<Rightarrow> int set \<Rightarrow> int \<Rightarrow> int" where
  "findMergeRoot_loop m seen cur =
     (case fmlookup m cur of
        None \<Rightarrow> cur
      | Some nxt \<Rightarrow> if cur \<notin> seen then findMergeRoot_loop m (insert cur seen) nxt else cur)"
  by pat_completeness auto
termination
  by (relation "measure (\<lambda>(m, seen, cur). card (fmdom' m - seen))")
     (simp_all add: guard_set_grows)

declare findMergeRoot_loop.simps [simp del]

definition findMergeRoot :: "int \<Rightarrow> MergeMap \<Rightarrow> int" where
  "findMergeRoot a m = findMergeRoot_loop m {} a"

text \<open>
  The number of rounds the same loop runs: the guards are those of
  \<open>findMergeRoot_loop\<close>, and each round counts one. The source has no such counter;
  it is here to state how long the loop runs.
\<close>

function findMergeRoot_steps :: "MergeMap \<Rightarrow> int set \<Rightarrow> int \<Rightarrow> nat" where
  "findMergeRoot_steps m seen cur =
     (case fmlookup m cur of
        None \<Rightarrow> 0
      | Some nxt \<Rightarrow> if cur \<notin> seen then Suc (findMergeRoot_steps m (insert cur seen) nxt) else 0)"
  by pat_completeness auto
termination
  by (relation "measure (\<lambda>(m, seen, cur). card (fmdom' m - seen))")
     (simp_all add: guard_set_grows)

declare findMergeRoot_steps.simps [simp del]

text \<open>
  \<^verbatim>\<open>
  function addMerge() {
    if (mergeFrom === "" || mergeTo === "" || mergeFrom === mergeTo) return;
    const rootTo = findMergeRoot(mergeTo, { ...mergeMap, [mergeFrom]: mergeTo });
    if (rootTo === mergeFrom) {
      setError("That merge would create a loop.");
      return;
    }
    setMergeMap(prev => ({ ...prev, [mergeFrom]: mergeTo }));
    setMergeFrom("");
    setMergeTo("");
  }
  \<close>
  \<open>addMerge\<close> returns nothing; all it does is in the state it leaves.
\<close>

definition addMerge :: "merge_state \<Rightarrow> merge_state" where
  "addMerge s =
     (if mergeFrom s = None \<or> mergeTo s = None \<or> mergeFrom s = mergeTo s then s
      else
        let from = the (mergeFrom s); to = the (mergeTo s);
            rootTo = findMergeRoot to (fmupd from to (mergeMap s))
        in if rootTo = from then s\<lparr>error := ''That merge would create a loop.''\<rparr>
           else s\<lparr>mergeMap := fmupd from to (mergeMap s), mergeFrom := None, mergeTo := None\<rparr>)"

definition removeMerge :: "int \<Rightarrow> merge_state \<Rightarrow> merge_state" where
  "removeMerge fromAppid s = s\<lparr>mergeMap := fmdrop fromAppid (mergeMap s)\<rparr>"

definition clearMerges :: "merge_state \<Rightarrow> merge_state" where
  "clearMerges s = s\<lparr>mergeMap := fmempty, mergeFrom := None, mergeTo := None\<rparr>"

text \<open>A merge map has a cycle when some key comes back to itself along the edges.\<close>

inductive reaches :: "MergeMap \<Rightarrow> int \<Rightarrow> int \<Rightarrow> bool" for m :: MergeMap where
  edge: "fmlookup m a = Some b \<Longrightarrow> reaches m a b"
| step: "fmlookup m a = Some b \<Longrightarrow> reaches m b c \<Longrightarrow> reaches m a c"

code_pred reaches .

definition cyclic :: "MergeMap \<Rightarrow> bool" where
  "cyclic m = (\<exists>a. reaches m a a)"

subsection \<open>The hidden set\<close>

text \<open>
  \<^verbatim>\<open>
  function toggleHide(appid: number) {
    setHiddenAppids(prev => {
      const next = new Set(prev);
      if (next.has(appid)) next.delete(appid);
      else next.add(appid);
      return next;
    });
  }
  \<close>
\<close>

definition toggleHide :: "int \<Rightarrow> int set \<Rightarrow> int set" where
  "toggleHide a prev = (if a \<in> prev then prev - {a} else insert a prev)"

subsection \<open>Addition of doubles\<close>

text \<open>
  \<open>existing.hours += g.hours\<close> adds two doubles: the exact sum, rounded to the nearest
  number with a significand of 53 bits and an exponent of at least \<open>- 1074\<close>, ties going
  to the even significand (IEEE 754 binary64, the number type of JavaScript).
  \<open>floor_log2 x\<close> is the integer part of the binary logarithm of a positive \<open>x\<close>.
  A sum beyond the largest double is \<open>Infinity\<close> in JavaScript, which is no real
  number: \<open>binary64_add\<close> is the addition for the sums below that bound.
\<close>

definition round_half_even :: "real \<Rightarrow> int" where
  "round_half_even r =
     (let n = \<lfloor>r\<rfloor>; d = r - of_int n
      in if d < 1 / 2 then n else if 1 / 2 < d then n + 1 else if even n then n else n + 1)"

definition floor_log2 :: "real \<Rightarrow> int" where
  "floor_log2 x = (if 1 \<le> x then bitlen \<lfloor>x\<rfloor> - 1 else - bitlen (\<lceil>1 / x\<rceil> - 1))"

definition binary64_round :: "real \<Rightarrow> real" where
  "binary64_round x =
     (if x = 0 then 0
      else let e = max (floor_log2 \<bar>x\<bar> - 52) (- 1074)
           in of_int (round_half_even (x / 2 powi e)) * 2 powi e)"

definition binary64_add :: "real \<Rightarrow> real \<Rightarrow> real" where
  "binary64_add x y = binary64_round (x + y)"

subsection \<open>The aggregation effect\<close>

text \<open>
  The effect of lines 327--368 returns at once when \<open>rawGames\<close> is empty. Otherwise it
  builds the list \<open>base\<close> (the raw records that have an appid and a name, their
  playtime turned into non-negative hours) and runs the loop below over it. The
  model starts from \<open>base\<close>.

  \<open>byId = new Map(base.map(b => [b.appid, b]))\<close>: a later entry with the same appid
  replaces an earlier one.
\<close>

definition byId :: "GameViz list \<Rightarrow> (int \<rightharpoonup> GameViz)" where
  "byId base = fold (\<lambda>b acc. acc(appid b \<mapsto> b)) base Map.empty"

text \<open>
  \<^verbatim>\<open>
  for (const g of base) {
    const root = findMergeRoot(g.appid, mergeMap);
    const rootGame = byId.get(root) || g;
    const existing = merged.get(root);
    if (existing) {
      existing.hours += g.hours;
    } else {
      merged.set(root, { ...rootGame, hours: g.hours });
    }
  }
  setGames([...merged.values()]);
  \<close>
  \<open>merged\<close> is a JavaScript \<open>Map\<close>, which iterates in insertion order: an association
  list, a new key appended at the end, an existing key updated in place. The loop takes
  the addition of \<open>+=\<close> as its first argument \<open>add\<close>; the effect runs it with the
  addition of doubles.
\<close>

fun merged_loop ::
  "(real \<Rightarrow> real \<Rightarrow> real) \<Rightarrow> MergeMap \<Rightarrow> (int \<rightharpoonup> GameViz) \<Rightarrow> GameViz list \<Rightarrow>
     (int \<times> GameViz) list \<Rightarrow> (int \<times> GameViz) list"
where
  "merged_loop add mm ids [] merged = merged"
| "merged_loop add mm ids (g # gs) merged =
     (let root = findMergeRoot (appid g) mm;
          rootGame = (case ids root of Some b \<Rightarrow> b | None \<Rightarrow> g)
      in case map_of merged root of
           Some existing \<Rightarrow>
             merged_loop add mm ids gs
               (AList.update root (existing\<lparr>hours := add (hours existing) (hours g)\<rparr>) merged)
         | None \<Rightarrow>
             merged_loop add mm ids gs (merged @ [(root, rootGame\<lparr>hours := hours g\<rparr>)]))"

definition merged_of :: "GameViz list \<Rightarrow> MergeMap \<Rightarrow> (int \<times> GameViz) list" where
  "merged_of base mm = merged_loop binary64_add mm (byId base) base []"

text \<open>
  What an entry shows besides its hours: the fields that \<open>{ ...rootGame, hours: g.hours }\<close>
  copies from \<open>rootGame\<close>.
\<close>

definition display_of :: "GameViz \<Rightarrow> int \<times> string \<times> string \<times> string" where
  "display_of g = (appid g, name g, img g, storeUrl g)"

text \<open>
  The invariant of the loop, for the titles \<open>ps\<close> already passed: an entry under the
  key \<open>r\<close> shows the title \<open>ids r\<close> when there is one, and else the first title of \<open>ps\<close>
  whose root is \<open>r\<close>.
\<close>

definition identity_ok ::
  "MergeMap \<Rightarrow> (int \<rightharpoonup> GameViz) \<Rightarrow> GameViz list \<Rightarrow> int \<times> GameViz \<Rightarrow> bool"
where
  "identity_ok mm ids ps p =
     (case ids (fst p) of
        Some b \<Rightarrow> display_of (snd p) = display_of b
      | None \<Rightarrow> (\<exists>g. find (\<lambda>g. findMergeRoot (appid g) mm = fst p) ps = Some g
                     \<and> display_of (snd p) = display_of g))"

text \<open>
  The other invariant of the loop: the hours of an entry under the key \<open>r\<close> are the
  hours of the titles of \<open>ps\<close> whose root is \<open>r\<close>, added up from the left with
  \<open>add\<close>.
\<close>

definition hours_ok ::
  "(real \<Rightarrow> real \<Rightarrow> real) \<Rightarrow> MergeMap \<Rightarrow> GameViz list \<Rightarrow> int \<times> GameViz \<Rightarrow> bool"
where
  "hours_ok add mm ps p =
     (\<exists>g gs. filter (\<lambda>g. findMergeRoot (appid g) mm = fst p) ps = g # gs
             \<and> hours (snd p) = foldl add (hours g) (map hours gs))"

definition games_of :: "GameViz list \<Rightarrow> MergeMap \<Rightarrow> GameViz list" where
  "games_of base mm = map snd (merged_of base mm)"

subsection \<open>Visibility and ranking\<close>

text \<open>
  \<^verbatim>\<open>
  const hiddenGamesList = games.filter(g => hiddenAppids.has(g.appid))
  const visibleGames = games.filter(g => !hiddenAppids.has(g.appid))
  \<close>
\<close>

definition hiddenGamesList :: "GameViz list \<Rightarrow> int set \<Rightarrow> GameViz list" where
  "hiddenGamesList games hiddenAppids = filter (\<lambda>g. appid g \<in> hiddenAppids) games"

definition visibleGames :: "GameViz list \<Rightarrow> int set \<Rightarrow> GameViz list" where
  "visibleGames games hiddenAppids = filter (\<lambda>g. appid g \<notin> hiddenAppids) games"

text \<open>
  \<^verbatim>\<open>
  const sorted = [...visibleGames].sort((a, b) => b.hours - a.hours);
  if (showAll) return sorted;
  return sorted.slice(0, Math.max(5, topN));
  \<close>
  \<open>Array.prototype.sort\<close> is stable, and the comparator orders by descending \<open>hours\<close>
  and by nothing else: the result is the stable sort on the key \<open>- hours\<close>.
  \<open>topN\<close> comes from a range input (10 to 300 in steps of 10): an integer.
\<close>

definition filtered :: "GameViz list \<Rightarrow> int \<Rightarrow> bool \<Rightarrow> GameViz list" where
  "filtered visible topN showAll =
     (let sorted_games = sort_key (\<lambda>g. - hours g) visible
      in if showAll then sorted_games else take (nat (max 5 topN)) sorted_games)"

subsection \<open>The \<open>localStorage\<close> initialisers\<close>

text \<open>
  A value that \<open>JSON.parse\<close> returns, and the outcome of a call that may throw.
  \<open>localStorage.getItem\<close>, \<open>JSON.parse\<close> and \<open>Number\<close> belong to the platform; the
  initialisers take them as parameters.
\<close>

datatype json =
  JNull | JBool bool | JNum real | JStr string | JArr "json list" | JObj "(string \<times> json) list"

datatype 'a outcome = Threw | Returned 'a

text \<open>JavaScript truthiness and \<open>typeof v === "object"\<close> on parsed JSON.\<close>

fun truthy :: "json \<Rightarrow> bool" where
  "truthy JNull = False"
| "truthy (JBool b) = b"
| "truthy (JNum x) = (x \<noteq> 0)"
| "truthy (JStr s) = (s \<noteq> [])"
| "truthy (JArr xs) = True"
| "truthy (JObj kvs) = True"

fun typeof_object :: "json \<Rightarrow> bool" where
  "typeof_object JNull = True"
| "typeof_object (JArr xs) = True"
| "typeof_object (JObj kvs) = True"
| "typeof_object v = False"

text \<open>
  \<^verbatim>\<open>
  try {
    const raw = localStorage.getItem("hiddenAppids");
    if (!raw) return new Set();
    const arr = JSON.parse(raw);
    if (Array.isArray(arr)) return new Set(arr.map(Number));
    return new Set();
  } catch { return new Set(); }
  \<close>
\<close>

definition hiddenAppids_init ::
  "(string \<Rightarrow> string option outcome) \<Rightarrow> (string \<Rightarrow> json outcome) \<Rightarrow> (json \<Rightarrow> 'n) \<Rightarrow> 'n set"
where
  "hiddenAppids_init getItem JSON_parse Number =
     (case getItem ''hiddenAppids'' of
        Threw \<Rightarrow> {}
      | Returned None \<Rightarrow> {}
      | Returned (Some raw) \<Rightarrow>
          if raw = [] then {}
          else (case JSON_parse raw of
                  Threw \<Rightarrow> {}
                | Returned arr \<Rightarrow>
                    (case arr of JArr xs \<Rightarrow> set (map Number xs) | _ \<Rightarrow> {})))"

text \<open>
  \<^verbatim>\<open>
  try {
    const raw = localStorage.getItem("mergeMap");
    if (!raw) return {};
    const obj = JSON.parse(raw);
    return obj && typeof obj === "object" ? obj : {};
  } catch { return {}; }
  \<close>
  The value returned is the parsed value itself; \<open>{}\<close> is \<open>JObj []\<close>.
\<close>

definition mergeMap_init ::
  "(string \<Rightarrow> string option outcome) \<Rightarrow> (string \<Rightarrow> json outcome) \<Rightarrow> json"
where
  "mergeMap_init getItem JSON_parse =
     (case getItem ''mergeMap'' of
        Threw \<Rightarrow> JObj []
      | Returned None \<Rightarrow> JObj []
      | Returned (Some raw) \<Rightarrow>
          if raw = [] then JObj []
          else (case JSON_parse raw of
                  Threw \<Rightarrow> JObj []
                | Returned obj \<Rightarrow> if truthy obj \<and> typeof_object obj then obj else JObj []))"

section \<open>Properties\<close>

subsection \<open>Root lookup\<close>

text \<open>A node that is already in the guard set stops the loop and is the result.\<close>

lemma findMergeRoot_loop_revisit: "cur \<in> seen \<Longrightarrow> findMergeRoot_loop m seen cur = cur"
  by (simp add: findMergeRoot_loop.simps split: option.splits)

lemma findMergeRoot_loop_no_edge: "fmlookup m cur = None \<Longrightarrow> findMergeRoot_loop m seen cur = cur"
  by (simp add: findMergeRoot_loop.simps)

text \<open>On every map the loop runs at most as many rounds as the map has keys.\<close>

lemma findMergeRoot_steps_bound: "findMergeRoot_steps m seen cur \<le> card (fmdom' m - seen)"
proof (induction m seen cur rule: findMergeRoot_steps.induct)
  case (1 m seen cur)
  show ?case
  proof (cases "fmlookup m cur")
    case None
    then show ?thesis by (simp add: findMergeRoot_steps.simps)
  next
    case (Some nxt)
    show ?thesis
    proof (cases "cur \<in> seen")
      case True
      then show ?thesis using Some by (simp add: findMergeRoot_steps.simps)
    next
      case False
      have "findMergeRoot_steps m (insert cur seen) nxt \<le> card (fmdom' m - insert cur seen)"
        using "1.IH" [OF Some False] .
      also have "\<dots> < card (fmdom' m - seen)"
        using Some False by (rule guard_set_grows)
      finally show ?thesis
        using Some False by (simp add: findMergeRoot_steps.simps)
    qed
  qed
qed

lemma findMergeRoot_steps_le_keys: "findMergeRoot_steps m {} a \<le> card (fmdom' m)"
  using findMergeRoot_steps_bound [of m "{}" a] by simp

text \<open>On a map without a cycle the result has no outgoing edge.\<close>

lemma reaches_snoc: "reaches m a b \<Longrightarrow> fmlookup m b = Some c \<Longrightarrow> reaches m a c"
  by (induction rule: reaches.induct) (auto intro: reaches.intros)

lemma findMergeRoot_loop_acyclic:
  assumes "\<forall>s \<in> seen. reaches m s cur" and "\<not> cyclic m"
  shows "fmlookup m (findMergeRoot_loop m seen cur) = None"
  using assms
proof (induction m seen cur rule: findMergeRoot_loop.induct)
  case (1 m seen cur)
  show ?case
  proof (cases "fmlookup m cur")
    case None
    then show ?thesis by (simp add: findMergeRoot_loop.simps)
  next
    case (Some nxt)
    have fresh: "cur \<notin> seen"
      using "1.prems" by (auto simp: cyclic_def)
    have "\<forall>s \<in> insert cur seen. reaches m s nxt"
      using "1.prems"(1) Some by (auto intro: reaches.edge reaches_snoc)
    then have "fmlookup m (findMergeRoot_loop m (insert cur seen) nxt) = None"
      using "1.IH" [OF Some fresh] "1.prems"(2) by blast
    then show ?thesis
      using Some fresh by (simp add: findMergeRoot_loop.simps)
  qed
qed

lemma findMergeRoot_acyclic: "\<not> cyclic m \<Longrightarrow> fmlookup m (findMergeRoot a m) = None"
  unfolding findMergeRoot_def by (rule findMergeRoot_loop_acyclic) simp_all

subsection \<open>The loop test of \<open>addMerge\<close>\<close>

text \<open>
  \<open>addMerge\<close> looks the root of \<open>to\<close> up in the map that already holds the edge from
  \<open>from\<close> to \<open>to\<close>, and compares it with \<open>from\<close>. The walk starts at \<open>to\<close>, so \<open>to\<close> is
  the first node to enter the guard set; if the walk comes to \<open>from\<close>, the next node is
  \<open>to\<close> again, and the guard stops the loop there. The result is never \<open>from\<close>.
\<close>

lemma findMergeRoot_loop_never_from:
  assumes "fmlookup m from = Some to" and "from \<noteq> to"
    and "to \<in> seen \<or> cur = to"
    and "from \<in> seen \<longrightarrow> cur = to \<and> to \<in> seen"
  shows "findMergeRoot_loop m seen cur \<noteq> from"
  using assms
proof (induction m seen cur rule: findMergeRoot_loop.induct)
  case (1 m seen cur)
  show ?case
  proof (cases "fmlookup m cur")
    case None
    then have "cur \<noteq> from"
      using "1.prems"(1) by auto
    then show ?thesis
      using None by (simp add: findMergeRoot_loop.simps)
  next
    case (Some nxt)
    show ?thesis
    proof (cases "cur \<in> seen")
      case True
      then have "cur \<noteq> from"
        using "1.prems" by auto
      then show ?thesis
        using Some True by (simp add: findMergeRoot_loop.simps)
    next
      case False
      have start: "to \<in> insert cur seen \<or> nxt = to"
        using "1.prems"(3) by auto
      have closing: "from \<in> insert cur seen \<longrightarrow> nxt = to \<and> to \<in> insert cur seen"
        using "1.prems" Some False by auto
      have "findMergeRoot_loop m (insert cur seen) nxt \<noteq> from"
        using "1.IH" [OF Some False "1.prems"(1,2) start closing] .
      then show ?thesis
        using Some False by (simp add: findMergeRoot_loop.simps)
    qed
  qed
qed

lemma findMergeRoot_never_from: "from \<noteq> to \<Longrightarrow> findMergeRoot to (fmupd from to m) \<noteq> from"
  unfolding findMergeRoot_def by (rule findMergeRoot_loop_never_from) simp_all

text \<open>
  Hence the branch that sets the error message is never taken: with two different
  appids selected, \<open>addMerge\<close> stores the edge, whatever the map holds.
\<close>

lemma addMerge_always_commits:
  assumes "mergeFrom s = Some f" and "mergeTo s = Some t" and "f \<noteq> t"
  shows "addMerge s = s\<lparr>mergeMap := fmupd f t (mergeMap s), mergeFrom := None, mergeTo := None\<rparr>"
  using assms findMergeRoot_never_from [of f t "mergeMap s"]
  by (simp add: addMerge_def Let_def)

lemma reaches_two_edges:
  "reaches m a b \<Longrightarrow> m = fmupd 1 3 (fmupd 2 1 fmempty) \<Longrightarrow> (a, b) \<in> {(2, 1), (2, 3), (1, 3)}"
  by (induction rule: reaches.induct) (auto split: if_splits)

lemma two_edges_acyclic: "\<not> cyclic (fmupd 1 3 (fmupd 2 1 fmempty))"
  unfolding cyclic_def by (auto dest: reaches_two_edges)

lemma three_edges_cyclic: "cyclic (fmupd 3 2 (fmupd 1 3 (fmupd 2 1 fmempty)))"
  unfolding cyclic_def
proof (rule exI [of _ 2])
  let ?m = "fmupd 3 2 (fmupd 1 3 (fmupd 2 1 fmempty)) :: MergeMap"
  have "reaches ?m 3 2"
    by (rule reaches.edge) simp
  then have "reaches ?m 1 2"
    by (rule reaches.step [rotated]) simp
  then show "reaches ?m 2 2"
    by (rule reaches.step [rotated]) simp
qed

text \<open>
  Claim C1 (fails on the code). The map holds the edges 2 to 1 and 1 to 3 and has no
  cycle; 3 is selected as \<open>from\<close> and 2 as \<open>to\<close>, so the new edge closes the cycle
  3, 2, 1, 3. \<open>findMergeRoot\<close> returns 2, not 3: \<open>addMerge\<close> reports nothing, stores the
  edge and leaves a map with a cycle.
\<close>

theorem addMerge_commits_closing_edge:
  "addMerge \<lparr>mergeFrom = Some 3, mergeTo = Some 2,
             mergeMap = fmupd 1 3 (fmupd 2 1 fmempty), error = []\<rparr>
     = \<lparr>mergeFrom = None, mergeTo = None,
        mergeMap = fmupd 3 2 (fmupd 1 3 (fmupd 2 1 fmempty)), error = []\<rparr>
   \<and> findMergeRoot 2 (fmupd 3 2 (fmupd 1 3 (fmupd 2 1 fmempty))) = 2
   \<and> \<not> cyclic (fmupd 1 3 (fmupd 2 1 fmempty))
   \<and> cyclic (fmupd 3 2 (fmupd 1 3 (fmupd 2 1 fmempty)))"
  using two_edges_acyclic three_edges_cyclic
  by (simp add: addMerge_def findMergeRoot_def findMergeRoot_loop.simps)

text \<open>
  Claim C3 (fails on the code). From the empty map, \<open>addMerge\<close> with 2 and 1 selected
  and then with 1 and 2 selected succeeds twice. In the map so built the root lookup
  of 2 stops at the guard and returns 2, which has the outgoing edge to 1.
\<close>

theorem findMergeRoot_after_addMerge_has_edge:
  "(let s1 = addMerge \<lparr>mergeFrom = Some 2, mergeTo = Some 1, mergeMap = fmempty, error = []\<rparr>;
        s2 = addMerge (s1\<lparr>mergeFrom := Some 1, mergeTo := Some 2\<rparr>)
    in s2 = \<lparr>mergeFrom = None, mergeTo = None,
              mergeMap = fmupd 1 2 (fmupd 2 1 fmempty), error = []\<rparr>
       \<and> findMergeRoot 2 (mergeMap s2) = 2
       \<and> fmlookup (mergeMap s2) 2 = Some 1)"
  by (simp add: addMerge_def findMergeRoot_def findMergeRoot_loop.simps)

subsection \<open>Edits that \<open>addMerge\<close> turns down\<close>

text \<open>
  Claim C7, as amended. When \<open>from\<close> or \<open>to\<close> is blank, or both are the same appid,
  \<open>addMerge\<close> returns at once: the map, the selection and the error message are what
  they were. Nothing tells the caller that the edit was turned down.
\<close>

theorem addMerge_invalid_silent:
  "mergeFrom s = None \<or> mergeTo s = None \<or> mergeFrom s = mergeTo s \<Longrightarrow> addMerge s = s"
  by (simp add: addMerge_def)

theorem addMerge_invalid_silent_witness:
  "mergeFrom \<lparr>mergeFrom = None, mergeTo = Some 7, mergeMap = fmupd 2 1 fmempty, error = []\<rparr> = None
   \<and> addMerge \<lparr>mergeFrom = None, mergeTo = Some 7, mergeMap = fmupd 2 1 fmempty, error = []\<rparr>
       = \<lparr>mergeFrom = None, mergeTo = Some 7, mergeMap = fmupd 2 1 fmempty, error = []\<rparr>"
  using addMerge_invalid_silent
    [of "\<lparr>mergeFrom = None, mergeTo = Some 7, mergeMap = fmupd 2 1 fmempty, error = []\<rparr>"]
  by simp

text \<open>
  The claim as stated fails at a self-edge: with 4 selected on both sides the state
  after the call is the state before it, error message included.
\<close>

theorem addMerge_self_edge_unreported:
  "addMerge \<lparr>mergeFrom = Some 4, mergeTo = Some 4, mergeMap = fmupd 2 1 fmempty, error = []\<rparr>
     = \<lparr>mergeFrom = Some 4, mergeTo = Some 4, mergeMap = fmupd 2 1 fmempty, error = []\<rparr>"
  by (simp add: addMerge_def)

text \<open>\<open>removeMerge\<close> and \<open>clearMerges\<close> take edges away and touch nothing else.\<close>

lemma removeMerge_lookup:
  "fmlookup (mergeMap (removeMerge a s)) b = (if b = a then None else fmlookup (mergeMap s) b)"
  by (simp add: removeMerge_def)

lemma clearMerges_lookup: "fmlookup (mergeMap (clearMerges s)) b = None"
  by (simp add: clearMerges_def)

subsection \<open>Hidden set\<close>

text \<open>
  Claim C9. Toggling the same appid twice gives back the hidden set that was there;
  one toggle inserts the appid when it was absent and removes it when it was present.
\<close>

theorem toggleHide_twice:
  "toggleHide a (toggleHide a hidden) = hidden
   \<and> toggleHide a hidden = (if a \<in> hidden then hidden - {a} else insert a hidden)
   \<and> (a \<in> toggleHide a hidden) = (a \<notin> hidden)"
  by (auto simp: toggleHide_def)

subsection \<open>Addition of doubles\<close>

text \<open>\<open>floor_log2\<close> gives the power of two at or below a positive number.\<close>

lemma floor_log2_bounds:
  assumes "0 < x"
  shows "2 powi (floor_log2 x) \<le> x \<and> x < 2 powi (floor_log2 x + 1)"
proof (cases "1 \<le> x")
  case True
  let ?n = "\<lfloor>x\<rfloor>"
  have n: "0 < ?n" using True by linarith
  have b: "2 ^ nat (bitlen ?n - 1) \<le> ?n" "?n < 2 ^ nat (bitlen ?n)"
    using bitlen_bounds [OF n] by auto
  have pos: "1 \<le> bitlen ?n"
    using n by (simp add: bitlen_ge_iff_power)
  have lo: "(2::real) ^ nat (bitlen ?n - 1) \<le> x"
  proof -
    have "(2::real) ^ nat (bitlen ?n - 1) = of_int (2 ^ nat (bitlen ?n - 1))" by simp
    also have "\<dots> \<le> of_int ?n" using b(1) by (simp only: of_int_le_iff)
    also have "\<dots> \<le> x" by simp
    finally show ?thesis .
  qed
  have hi: "x < (2::real) ^ nat (bitlen ?n)"
  proof -
    have "?n + 1 \<le> 2 ^ nat (bitlen ?n)" using b(2) by simp
    then have "of_int (?n + 1) \<le> (of_int (2 ^ nat (bitlen ?n)) :: real)"
      by (simp only: of_int_le_iff)
    then have "real_of_int ?n + 1 \<le> 2 ^ nat (bitlen ?n)" by simp
    moreover have "x < real_of_int ?n + 1" by linarith
    ultimately show ?thesis by linarith
  qed
  have e1: "(2::real) powi (bitlen ?n - 1) = 2 ^ nat (bitlen ?n - 1)"
    using pos by (simp add: power_int_nonneg_exp)
  have e2: "(2::real) powi (bitlen ?n - 1 + 1) = 2 ^ nat (bitlen ?n)"
    using pos by (simp add: power_int_nonneg_exp)
  show ?thesis
    using True lo hi e1 e2 by (simp add: floor_log2_def)
next
  case False
  let ?y = "1 / x"
  let ?m = "\<lceil>?y\<rceil> - 1"
  have y: "1 < ?y" using False assms by simp
  have m: "0 < ?m" using y by linarith
  have b: "2 ^ nat (bitlen ?m - 1) \<le> ?m" "?m < 2 ^ nat (bitlen ?m)"
    using bitlen_bounds [OF m] by auto
  have pos: "1 \<le> bitlen ?m"
    using m by (simp add: bitlen_ge_iff_power)
  have my: "of_int ?m < ?y" "?y \<le> of_int (?m + 1)"
    by linarith+
  have up: "?y \<le> (2::real) ^ nat (bitlen ?m)"
  proof -
    have "?m + 1 \<le> 2 ^ nat (bitlen ?m)" using b(2) by simp
    then have "of_int (?m + 1) \<le> (of_int (2 ^ nat (bitlen ?m)) :: real)"
      by (simp only: of_int_le_iff)
    then have "real_of_int (?m + 1) \<le> 2 ^ nat (bitlen ?m)" by simp
    then show ?thesis using my(2) by linarith
  qed
  have dn: "(2::real) ^ nat (bitlen ?m - 1) < ?y"
  proof -
    have "(of_int (2 ^ nat (bitlen ?m - 1)) :: real) \<le> of_int ?m"
      using b(1) by (simp only: of_int_le_iff)
    then have "(2::real) ^ nat (bitlen ?m - 1) \<le> of_int ?m" by simp
    then show ?thesis using my(1) by linarith
  qed
  have lo: "1 / (2::real) ^ nat (bitlen ?m) \<le> x"
    using up assms by (simp add: field_simps)
  have hi: "x < 1 / (2::real) ^ nat (bitlen ?m - 1)"
    using dn assms by (simp add: field_simps)
  have e1: "(2::real) powi (- bitlen ?m) = 1 / 2 ^ nat (bitlen ?m)"
    using pos by (simp add: power_int_minus_divide power_int_nonneg_exp)
  have e2: "(2::real) powi (- bitlen ?m + 1) = 1 / 2 ^ nat (bitlen ?m - 1)"
  proof -
    have "- bitlen ?m + 1 = - (bitlen ?m - 1)" by simp
    then show ?thesis
      using pos by (simp only: power_int_minus_divide) (simp add: power_int_nonneg_exp)
  qed
  show ?thesis
    using False lo hi e1 e2 by (simp add: floor_log2_def)
qed


text \<open>\<open>binary64_round\<close> moves a number by at most half a unit in its last place.\<close>

lemma round_half_even_nearest: "\<bar>of_int (round_half_even r) - r\<bar> \<le> 1 / 2"
proof -
  have "of_int \<lfloor>r\<rfloor> \<le> r" "r < of_int \<lfloor>r\<rfloor> + 1"
    by linarith+
  then show ?thesis
    by (auto simp: round_half_even_def Let_def)
qed

lemma binary64_round_nearest:
  "\<bar>binary64_round x - x\<bar> \<le> 2 powi (max (floor_log2 \<bar>x\<bar> - 52) (- 1074)) / 2"
proof (cases "x = 0")
  case True
  then show ?thesis by (simp add: binary64_round_def)
next
  case False
  let ?u = "(2::real) powi (max (floor_log2 \<bar>x\<bar> - 52) (- 1074))"
  have u: "0 < ?u" by simp
  have "\<bar>of_int (round_half_even (x / ?u)) - x / ?u\<bar> \<le> 1 / 2"
    by (rule round_half_even_nearest)
  then have "\<bar>of_int (round_half_even (x / ?u)) - x / ?u\<bar> * ?u \<le> 1 / 2 * ?u"
    using u by (intro mult_right_mono) simp_all
  moreover have "\<bar>of_int (round_half_even (x / ?u)) - x / ?u\<bar> * ?u
                 = \<bar>of_int (round_half_even (x / ?u)) * ?u - x\<bar>"
  proof -
    have "\<bar>of_int (round_half_even (x / ?u)) - x / ?u\<bar> * ?u
          = \<bar>(of_int (round_half_even (x / ?u)) - x / ?u) * ?u\<bar>"
      using u by (simp add: abs_mult)
    also have "(of_int (round_half_even (x / ?u)) - x / ?u) * ?u
               = of_int (round_half_even (x / ?u)) * ?u - x"
      using u by (simp add: algebra_simps)
    finally show ?thesis .
  qed
  ultimately show ?thesis
    using False by (simp add: binary64_round_def Let_def)
qed

text \<open>Some sums, as the source computes them.\<close>

lemma binary64_add_small:
  "binary64_add 2 1 = 3"
  "binary64_add 10 5 = 15"
  by code_simp+

text \<open>
  12, 18 and 6 minutes are 0.2, 0.3 and 0.1 hours, none of which is a double: the
  quotients \<open>minutes / 60\<close> are the nearest doubles.
\<close>

lemma hours_of_minutes:
  "binary64_round (12 / 60) = 3602879701896397 / 18014398509481984"
  "binary64_round (18 / 60) = 5404319552844595 / 18014398509481984"
  "binary64_round (6 / 60) = 3602879701896397 / 36028797018963968"
  by code_simp+

text \<open>
  The exact sum of the doubles next to 0.2 and 0.1 lies half way between two doubles;
  the sum of the source is the one with the even significand, \<open>0.30000000000000004\<close>.
\<close>

lemma binary64_add_fifth_tenth:
  "binary64_add (3602879701896397 / 18014398509481984) (3602879701896397 / 36028797018963968)
     = 5404319552844596 / 18014398509481984"
  by code_simp

text \<open>
  The hours of three titles and of the two entries made of them, each list added up
  from the left as doubles: \<open>0.6\<close> and \<open>0.6000000000000001\<close>.
\<close>

lemma binary64_add_titles:
  "binary64_add (3602879701896397 / 18014398509481984) (5404319552844595 / 18014398509481984)
     = 1 / 2"
  "binary64_add (1 / 2) (3602879701896397 / 36028797018963968)
     = 5404319552844595 / 9007199254740992"
  by code_simp+

lemma binary64_add_entries:
  "binary64_add (5404319552844596 / 18014398509481984) (5404319552844595 / 18014398509481984)
     = 5404319552844596 / 9007199254740992"
  by code_simp

subsection \<open>Aggregation: where the hours go\<close>

lemma set_update_distinct:
  "distinct (map fst al) \<Longrightarrow> p \<in> set (AList.update k v al) \<Longrightarrow>
   p = (k, v) \<or> (p \<in> set al \<and> fst p \<noteq> k)"
  by (induction al) (auto split: if_splits)

lemma hours_ok_other:
  "hours_ok add mm ps p \<Longrightarrow> findMergeRoot (appid g) mm \<noteq> fst p \<Longrightarrow>
   hours_ok add mm (ps @ [g]) p"
  by (auto simp: hours_ok_def)

lemma hours_ok_same:
  "hours_ok add mm ps (r, e) \<Longrightarrow> findMergeRoot (appid g) mm = r \<Longrightarrow>
   hours_ok add mm (ps @ [g]) (r, e\<lparr>hours := add (hours e) (hours g)\<rparr>)"
  by (auto simp: hours_ok_def)

lemma filter_key_empty: "k \<notin> f ` set ps \<Longrightarrow> filter (\<lambda>x. f x = k) ps = []"
  by (induction ps) auto

lemma hours_ok_first:
  assumes "findMergeRoot (appid g) mm \<notin> (\<lambda>g. findMergeRoot (appid g) mm) ` set ps"
  shows "hours_ok add mm (ps @ [g]) (findMergeRoot (appid g) mm, b\<lparr>hours := hours g\<rparr>)"
  using filter_key_empty [OF assms] by (simp add: hours_ok_def)

lemma merged_loop_hours:
  assumes "distinct (map fst merged)"
    and "fst ` set merged = (\<lambda>g. findMergeRoot (appid g) mm) ` set ps"
    and "\<forall>p \<in> set merged. hours_ok add mm ps p"
  shows "distinct (map fst (merged_loop add mm ids gs merged))
         \<and> (\<forall>p \<in> set (merged_loop add mm ids gs merged). hours_ok add mm (ps @ gs) p)"
  using assms
proof (induction gs arbitrary: merged ps)
  case Nil
  then show ?case by simp
next
  case (Cons g gs)
  let ?root = "findMergeRoot (appid g) mm"
  show ?case
  proof (cases "map_of merged ?root")
    case None
    let ?rootGame = "case ids ?root of Some b \<Rightarrow> b | None \<Rightarrow> g"
    let ?merged' = "merged @ [(?root, ?rootGame\<lparr>hours := hours g\<rparr>)]"
    have fresh: "?root \<notin> fst ` set merged"
      using None by (metis map_of_eq_None_iff)
    then have new: "hours_ok add mm (ps @ [g]) (?root, ?rootGame\<lparr>hours := hours g\<rparr>)"
      using Cons.prems(2) by (intro hours_ok_first) simp
    have dist: "distinct (map fst ?merged')"
      using Cons.prems(1) fresh by simp
    have keys: "fst ` set ?merged' = (\<lambda>g. findMergeRoot (appid g) mm) ` set (ps @ [g])"
      using Cons.prems(2) by auto
    have inv: "\<forall>p \<in> set ?merged'. hours_ok add mm (ps @ [g]) p"
    proof
      fix p assume "p \<in> set ?merged'"
      then consider "p = (?root, ?rootGame\<lparr>hours := hours g\<rparr>)" | "p \<in> set merged"
        by auto
      then show "hours_ok add mm (ps @ [g]) p"
      proof cases
        case 1
        then show ?thesis using new by simp
      next
        case 2
        then have "?root \<noteq> fst p"
          using fresh by auto
        then show ?thesis
          using Cons.prems(3) 2 by (blast intro: hours_ok_other)
      qed
    qed
    have "distinct (map fst (merged_loop add mm ids gs ?merged'))
          \<and> (\<forall>p \<in> set (merged_loop add mm ids gs ?merged'). hours_ok add mm ((ps @ [g]) @ gs) p)"
      using Cons.IH [OF dist keys inv] .
    then show ?thesis
      using None by (simp add: Let_def)
  next
    case (Some existing)
    let ?e' = "existing\<lparr>hours := add (hours existing) (hours g)\<rparr>"
    let ?merged' = "AList.update ?root ?e' merged"
    have mem: "(?root, existing) \<in> set merged"
      using Some by (rule map_of_SomeD)
    then have "?root \<in> fst ` set merged"
      by force
    then have keys: "fst ` set ?merged' = (\<lambda>g. findMergeRoot (appid g) mm) ` set (ps @ [g])"
      using Cons.prems(2) by (auto simp: dom_update)
    have dist: "distinct (map fst ?merged')"
      using Cons.prems(1) by (rule distinct_update)
    have upd: "hours_ok add mm (ps @ [g]) (?root, ?e')"
      using Cons.prems(3) mem by (blast intro: hours_ok_same)
    have inv: "\<forall>p \<in> set ?merged'. hours_ok add mm (ps @ [g]) p"
    proof
      fix p assume "p \<in> set ?merged'"
      then consider "p = (?root, ?e')" | "p \<in> set merged" "fst p \<noteq> ?root"
        using set_update_distinct [OF Cons.prems(1)] by blast
      then show "hours_ok add mm (ps @ [g]) p"
      proof cases
        case 1
        then show ?thesis using upd by simp
      next
        case 2
        then show ?thesis
          using Cons.prems(3) by (metis hours_ok_other)
      qed
    qed
    have "distinct (map fst (merged_loop add mm ids gs ?merged'))
          \<and> (\<forall>p \<in> set (merged_loop add mm ids gs ?merged'). hours_ok add mm ((ps @ [g]) @ gs) p)"
      using Cons.IH [OF dist keys inv] .
    then show ?thesis
      using Some by (simp add: Let_def)
  qed
qed

text \<open>The keys of \<open>merged\<close> are the roots of the titles.\<close>

lemma merged_loop_keys:
  "fst ` set (merged_loop add mm ids gs merged)
     = fst ` set merged \<union> (\<lambda>g. findMergeRoot (appid g) mm) ` set gs"
proof (induction gs arbitrary: merged)
  case Nil
  then show ?case by simp
next
  case (Cons g gs)
  show ?case
  proof (cases "map_of merged (findMergeRoot (appid g) mm)")
    case None
    then show ?thesis by (simp add: Cons.IH Let_def)
  next
    case (Some existing)
    then show ?thesis by (simp add: Cons.IH Let_def dom_update)
  qed
qed

lemma merged_of_keys:
  "fst ` set (merged_of base mm) = (\<lambda>g. findMergeRoot (appid g) mm) ` set base"
  by (simp add: merged_of_def merged_loop_keys)

text \<open>
  Claim C2, as amended. Every root of a title has exactly one entry, and the hours of
  the entry under the root \<open>r\<close> are the hours of the titles whose root is \<open>r\<close>, added
  up in the order of the list with the addition of doubles. So every title is counted
  once, in the entry of its root; what the additions round off is not made up for.
  This holds for every merge map, with or without a cycle.
\<close>

theorem merged_of_hours_in_order:
  "distinct (map fst (merged_of base mm))
   \<and> fst ` set (merged_of base mm) = (\<lambda>g. findMergeRoot (appid g) mm) ` set base
   \<and> (\<forall>p \<in> set (merged_of base mm).
        \<exists>g gs. filter (\<lambda>g. findMergeRoot (appid g) mm = fst p) base = g # gs
               \<and> hours (snd p) = foldl binary64_add (hours g) (map hours gs))"
proof -
  have "distinct (map fst (merged_loop binary64_add mm (byId base) base []))
        \<and> (\<forall>p \<in> set (merged_loop binary64_add mm (byId base) base []).
              hours_ok binary64_add mm ([] @ base) p)"
    by (rule merged_loop_hours) simp_all
  then show ?thesis
    by (simp add: merged_of_def merged_loop_keys hours_ok_def)
qed

text \<open>
  Titles 1, 2 and 3 with 12, 18 and 6 minutes, title 3 merged into title 1: the entry
  of 1 holds the rounded sum of the hours of 1 and 3.
\<close>

theorem merged_of_hours_in_order_witness:
  "merged_of
     [\<lparr>appid = 1, name = ''A'', hours = 3602879701896397 / 18014398509481984, img = [], storeUrl = []\<rparr>,
      \<lparr>appid = 2, name = ''B'', hours = 5404319552844595 / 18014398509481984, img = [], storeUrl = []\<rparr>,
      \<lparr>appid = 3, name = ''C'', hours = 3602879701896397 / 36028797018963968, img = [], storeUrl = []\<rparr>]
     (fmupd 3 1 fmempty)
     = [(1, \<lparr>appid = 1, name = ''A'', hours = 5404319552844596 / 18014398509481984,
              img = [], storeUrl = []\<rparr>),
        (2, \<lparr>appid = 2, name = ''B'', hours = 5404319552844595 / 18014398509481984,
              img = [], storeUrl = []\<rparr>)]
   \<and> foldl binary64_add (3602879701896397 / 18014398509481984)
        (map hours [\<lparr>appid = 3, name = ''C'', hours = 3602879701896397 / 36028797018963968,
                      img = [], storeUrl = []\<rparr>])
     = 5404319552844596 / 18014398509481984"
  using merged_of_hours_in_order
    [of "[\<lparr>appid = 1, name = ''A'', hours = 3602879701896397 / 18014398509481984, img = [], storeUrl = []\<rparr>,
          \<lparr>appid = 2, name = ''B'', hours = 5404319552844595 / 18014398509481984, img = [], storeUrl = []\<rparr>,
          \<lparr>appid = 3, name = ''C'', hours = 3602879701896397 / 36028797018963968, img = [], storeUrl = []\<rparr>]"
        "fmupd 3 1 fmempty"]
  by (simp add: merged_of_def byId_def findMergeRoot_def findMergeRoot_loop.simps
      binary64_add_fifth_tenth)

text \<open>
  The claim as stated fails there. The hours of the two entries add up to \<open>1 / 2 ^ 55\<close>
  more than the hours of the three titles, as real numbers; added up from the left
  with the addition of doubles, the hours of the entries give \<open>0.6000000000000001\<close>
  and those of the titles \<open>0.6\<close>.
\<close>

theorem games_of_total_rounded:
  "sum_list (map hours (games_of
     [\<lparr>appid = 1, name = ''A'', hours = 3602879701896397 / 18014398509481984, img = [], storeUrl = []\<rparr>,
      \<lparr>appid = 2, name = ''B'', hours = 5404319552844595 / 18014398509481984, img = [], storeUrl = []\<rparr>,
      \<lparr>appid = 3, name = ''C'', hours = 3602879701896397 / 36028797018963968, img = [], storeUrl = []\<rparr>]
     (fmupd 3 1 fmempty)))
   - sum_list (map hours
     [\<lparr>appid = 1, name = ''A'', hours = 3602879701896397 / 18014398509481984, img = [], storeUrl = []\<rparr>,
      \<lparr>appid = 2, name = ''B'', hours = 5404319552844595 / 18014398509481984, img = [], storeUrl = []\<rparr>,
      \<lparr>appid = 3, name = ''C'', hours = 3602879701896397 / 36028797018963968, img = [], storeUrl = []\<rparr>])
   = 1 / 36028797018963968
   \<and> foldl binary64_add (5404319552844596 / 18014398509481984)
        [5404319552844595 / 18014398509481984]
     = 5404319552844596 / 9007199254740992
   \<and> foldl binary64_add (3602879701896397 / 18014398509481984)
        [5404319552844595 / 18014398509481984, 3602879701896397 / 36028797018963968]
     = 5404319552844595 / 9007199254740992"
proof (intro conjI)
  show "sum_list (map hours (games_of
     [\<lparr>appid = 1, name = ''A'', hours = 3602879701896397 / 18014398509481984, img = [], storeUrl = []\<rparr>,
      \<lparr>appid = 2, name = ''B'', hours = 5404319552844595 / 18014398509481984, img = [], storeUrl = []\<rparr>,
      \<lparr>appid = 3, name = ''C'', hours = 3602879701896397 / 36028797018963968, img = [], storeUrl = []\<rparr>]
     (fmupd 3 1 fmempty)))
   - sum_list (map hours
     [\<lparr>appid = 1, name = ''A'', hours = 3602879701896397 / 18014398509481984, img = [], storeUrl = []\<rparr>,
      \<lparr>appid = 2, name = ''B'', hours = 5404319552844595 / 18014398509481984, img = [], storeUrl = []\<rparr>,
      \<lparr>appid = 3, name = ''C'', hours = 3602879701896397 / 36028797018963968, img = [], storeUrl = []\<rparr>])
   = 1 / 36028797018963968"
    by (simp add: games_of_def merged_of_def byId_def findMergeRoot_def findMergeRoot_loop.simps
        binary64_add_fifth_tenth)
  show "foldl binary64_add (5404319552844596 / 18014398509481984)
        [5404319552844595 / 18014398509481984]
     = 5404319552844596 / 9007199254740992"
    by code_simp
  show "foldl binary64_add (3602879701896397 / 18014398509481984)
        [5404319552844595 / 18014398509481984, 3602879701896397 / 36028797018963968]
     = 5404319552844595 / 9007199254740992"
    by code_simp
qed

text \<open>
  With an addition that does not round, the loop keeps the total: the difference
  above is a matter of rounding alone.
\<close>

lemma sum_hours_update:
  "map_of al k = Some e \<Longrightarrow>
   (\<Sum>p\<leftarrow>AList.update k e' al. hours (snd p)) = (\<Sum>p\<leftarrow>al. hours (snd p)) - hours e + hours e'"
  by (induction al) auto

lemma merged_loop_exact_total:
  "(\<Sum>p\<leftarrow>merged_loop (+) mm ids gs merged. hours (snd p))
     = (\<Sum>p\<leftarrow>merged. hours (snd p)) + (\<Sum>g\<leftarrow>gs. hours g)"
proof (induction gs arbitrary: merged)
  case Nil
  then show ?case by simp
next
  case (Cons g gs)
  show ?case
  proof (cases "map_of merged (findMergeRoot (appid g) mm)")
    case None
    then show ?thesis by (simp add: Cons.IH Let_def)
  next
    case (Some existing)
    then show ?thesis by (simp add: Cons.IH Let_def sum_hours_update)
  qed
qed

text \<open>Scenario 1 of the specification: A 600, B 300 and C 120 minutes, B merged into A.\<close>

lemma scenario_merge_B_into_A:
  "games_of [\<lparr>appid = 1, name = ''A'', hours = 10, img = [], storeUrl = []\<rparr>,
             \<lparr>appid = 2, name = ''B'', hours = 5, img = [], storeUrl = []\<rparr>,
             \<lparr>appid = 3, name = ''C'', hours = 2, img = [], storeUrl = []\<rparr>]
            (fmupd 2 1 fmempty)
     = [\<lparr>appid = 1, name = ''A'', hours = 15, img = [], storeUrl = []\<rparr>,
        \<lparr>appid = 3, name = ''C'', hours = 2, img = [], storeUrl = []\<rparr>]"
  by (simp add: games_of_def merged_of_def byId_def findMergeRoot_def findMergeRoot_loop.simps
      binary64_add_small)

subsection \<open>Aggregation: whose name an entry shows\<close>

lemma find_append:
  "find P (xs @ ys) = (case find P xs of None \<Rightarrow> find P ys | Some x \<Rightarrow> Some x)"
  by (induction xs) auto

lemma find_key_None: "k \<notin> f ` set ps \<Longrightarrow> find (\<lambda>g. f g = k) ps = None"
  by (induction ps) auto

lemma fold_byId:
  "fold (\<lambda>b acc. acc(appid b \<mapsto> b)) base acc r =
     (case find (\<lambda>b. appid b = r) (rev base) of None \<Rightarrow> acc r | Some b \<Rightarrow> Some b)"
  by (induction base arbitrary: acc) (auto simp: find_append split: option.splits)

text \<open>\<open>byId.get(r)\<close> is the last title of the list whose appid is \<open>r\<close>.\<close>

lemma byId_last: "byId base r = find (\<lambda>b. appid b = r) (rev base)"
  by (simp add: byId_def fold_byId split: option.splits)

lemma display_of_hours [simp]: "display_of (g\<lparr>hours := h\<rparr>) = display_of g"
  by (simp add: display_of_def)

lemma set_update_cases: "p \<in> set (AList.update k v al) \<Longrightarrow> p = (k, v) \<or> p \<in> set al"
  by (induction al) (auto split: if_splits)

lemma identity_ok_append: "identity_ok mm ids ps p \<Longrightarrow> identity_ok mm ids (ps @ qs) p"
  by (auto simp: identity_ok_def find_append split: option.splits)

lemma identity_ok_hours:
  "identity_ok mm ids ps (r, e) \<Longrightarrow> identity_ok mm ids ps (r, e\<lparr>hours := h\<rparr>)"
  by (auto simp: identity_ok_def split: option.splits)

lemma merged_loop_identity:
  assumes "fst ` set merged = (\<lambda>g. findMergeRoot (appid g) mm) ` set ps"
    and "\<forall>p \<in> set merged. identity_ok mm ids ps p"
  shows "\<forall>p \<in> set (merged_loop add mm ids gs merged). identity_ok mm ids (ps @ gs) p"
  using assms
proof (induction gs arbitrary: merged ps)
  case Nil
  then show ?case by simp
next
  case (Cons g gs)
  let ?root = "findMergeRoot (appid g) mm"
  show ?case
  proof (cases "map_of merged ?root")
    case None
    let ?rootGame = "case ids ?root of Some b \<Rightarrow> b | None \<Rightarrow> g"
    let ?merged' = "merged @ [(?root, ?rootGame\<lparr>hours := hours g\<rparr>)]"
    have "?root \<notin> (\<lambda>g. findMergeRoot (appid g) mm) ` set ps"
      using None Cons.prems(1) by (metis map_of_eq_None_iff)
    then have nobody: "find (\<lambda>g. findMergeRoot (appid g) mm = ?root) ps = None"
      by (rule find_key_None)
    have new: "identity_ok mm ids (ps @ [g]) (?root, ?rootGame\<lparr>hours := hours g\<rparr>)"
      using nobody by (auto simp: identity_ok_def find_append split: option.splits)
    have keys: "fst ` set ?merged' = (\<lambda>g. findMergeRoot (appid g) mm) ` set (ps @ [g])"
      using Cons.prems(1) by auto
    have inv: "\<forall>p \<in> set ?merged'. identity_ok mm ids (ps @ [g]) p"
      using Cons.prems(2) new by (auto intro: identity_ok_append)
    have "\<forall>p \<in> set (merged_loop add mm ids gs ?merged'). identity_ok mm ids ((ps @ [g]) @ gs) p"
      using Cons.IH [OF keys inv] .
    then show ?thesis
      using None by (simp add: Let_def)
  next
    case (Some existing)
    let ?merged' = "AList.update ?root (existing\<lparr>hours := add (hours existing) (hours g)\<rparr>) merged"
    have mem: "(?root, existing) \<in> set merged"
      using Some by (rule map_of_SomeD)
    then have "?root \<in> fst ` set merged"
      by force
    then have keys: "fst ` set ?merged' = (\<lambda>g. findMergeRoot (appid g) mm) ` set (ps @ [g])"
      using Cons.prems(1) by (auto simp: dom_update)
    have upd: "identity_ok mm ids (ps @ [g]) (?root, existing\<lparr>hours := add (hours existing) (hours g)\<rparr>)"
      using Cons.prems(2) mem by (blast intro: identity_ok_append identity_ok_hours)
    have inv: "\<forall>p \<in> set ?merged'. identity_ok mm ids (ps @ [g]) p"
      using Cons.prems(2) upd by (blast dest: set_update_cases intro: identity_ok_append)
    have "\<forall>p \<in> set (merged_loop add mm ids gs ?merged'). identity_ok mm ids ((ps @ [g]) @ gs) p"
      using Cons.IH [OF keys inv] .
    then show ?thesis
      using Some by (simp add: Let_def)
  qed
qed

lemma merged_of_identity_ok:
  assumes "(r, e) \<in> set (merged_of base mm)"
  shows "identity_ok mm (byId base) base (r, e)"
proof -
  have "\<forall>p \<in> set (merged_loop binary64_add mm (byId base) base []).
          identity_ok mm (byId base) ([] @ base) p"
    by (rule merged_loop_identity) simp_all
  then show ?thesis
    using assms by (auto simp: merged_of_def)
qed

text \<open>An entry whose root is among the titles carries the root as its appid.\<close>

lemma find_SomeD: "find P xs = Some x \<Longrightarrow> P x \<and> x \<in> set xs"
  by (induction xs) (auto split: if_splits)

lemma entry_appid_is_root:
  assumes "(r, e) \<in> set (merged_of base mm)" and "r \<in> appid ` set base"
  shows "appid e = r"
proof -
  have "find (\<lambda>b. appid b = r) (rev base) \<noteq> None"
    using assms(2) by (auto simp: find_None_iff)
  then obtain b where b: "byId base r = Some b"
    by (auto simp: byId_last)
  then have "display_of e = display_of b"
    using merged_of_identity_ok [OF assms(1)] by (simp add: identity_ok_def)
  moreover have "appid b = r"
    using b by (auto simp: byId_last dest: find_SomeD)
  ultimately show ?thesis
    by (simp add: display_of_def)
qed

text \<open>
  Claim C8, as amended. Let \<open>e\<close> be the entry that the aggregation keeps under the root
  \<open>r\<close>. If a title has the appid \<open>r\<close>, \<open>e\<close> shows that title (the last one in the list,
  should several have this appid): its appid, name, image and store link. Otherwise
  \<open>e\<close> shows the first title of the list whose root is \<open>r\<close>, which is the title the loop
  was at when it made the entry; the appids of the contributors play no part.
\<close>

theorem merged_of_display_identity:
  assumes "(r, e) \<in> set (merged_of base mm)"
  shows "(case find (\<lambda>b. appid b = r) (rev base) of
            Some b \<Rightarrow> display_of e = display_of b
          | None \<Rightarrow> (\<exists>g. find (\<lambda>g. findMergeRoot (appid g) mm = r) base = Some g
                         \<and> display_of e = display_of g))"
  using merged_of_identity_ok [OF assms]
  by (auto simp: identity_ok_def byId_last split: option.splits)

text \<open>
  The titles 5 and 3 are both merged into 9, and no title has the appid 9. The
  entry under 9 shows title 5, the first in the list.
\<close>

theorem merged_of_display_identity_witness:
  "(9, \<lparr>appid = 5, name = ''Five'', hours = 3, img = ''i5'', storeUrl = ''s5''\<rparr>)
     \<in> set (merged_of
              [\<lparr>appid = 5, name = ''Five'', hours = 2, img = ''i5'', storeUrl = ''s5''\<rparr>,
               \<lparr>appid = 3, name = ''Three'', hours = 1, img = ''i3'', storeUrl = ''s3''\<rparr>]
              (fmupd 3 9 (fmupd 5 9 fmempty)))
   \<and> find (\<lambda>b. appid b = 9)
        (rev [\<lparr>appid = 5, name = ''Five'', hours = 2, img = ''i5'', storeUrl = ''s5''\<rparr>,
              \<lparr>appid = 3, name = ''Three'', hours = 1, img = ''i3'', storeUrl = ''s3''\<rparr>]) = None
   \<and> find (\<lambda>g. findMergeRoot (appid g) (fmupd 3 9 (fmupd 5 9 fmempty)) = 9)
        [\<lparr>appid = 5, name = ''Five'', hours = 2, img = ''i5'', storeUrl = ''s5''\<rparr>,
         \<lparr>appid = 3, name = ''Three'', hours = 1, img = ''i3'', storeUrl = ''s3''\<rparr>]
       = Some \<lparr>appid = 5, name = ''Five'', hours = 2, img = ''i5'', storeUrl = ''s5''\<rparr>
   \<and> display_of \<lparr>appid = 5, name = ''Five'', hours = 3, img = ''i5'', storeUrl = ''s5''\<rparr>
       = display_of \<lparr>appid = 5, name = ''Five'', hours = 2, img = ''i5'', storeUrl = ''s5''\<rparr>"
proof -
  have h: "(9, \<lparr>appid = 5, name = ''Five'', hours = 3, img = ''i5'', storeUrl = ''s5''\<rparr>)
     \<in> set (merged_of
              [\<lparr>appid = 5, name = ''Five'', hours = 2, img = ''i5'', storeUrl = ''s5''\<rparr>,
               \<lparr>appid = 3, name = ''Three'', hours = 1, img = ''i3'', storeUrl = ''s3''\<rparr>]
              (fmupd 3 9 (fmupd 5 9 fmempty)))"
    by (simp add: merged_of_def byId_def findMergeRoot_def findMergeRoot_loop.simps
        binary64_add_small)
  show ?thesis
    using h merged_of_display_identity [OF h]
    by (simp add: findMergeRoot_def findMergeRoot_loop.simps display_of_def)
qed

text \<open>
  The claim as stated fails there: of the two contributors, title 3 has the smaller
  appid, and the entry shows title 5.
\<close>

theorem merged_of_dangling_first_contributor:
  "merged_of
     [\<lparr>appid = 5, name = ''Five'', hours = 2, img = ''i5'', storeUrl = ''s5''\<rparr>,
      \<lparr>appid = 3, name = ''Three'', hours = 1, img = ''i3'', storeUrl = ''s3''\<rparr>]
     (fmupd 3 9 (fmupd 5 9 fmempty))
     = [(9, \<lparr>appid = 5, name = ''Five'', hours = 3, img = ''i5'', storeUrl = ''s5''\<rparr>)]
   \<and> findMergeRoot 5 (fmupd 3 9 (fmupd 5 9 fmempty)) = 9
   \<and> findMergeRoot 3 (fmupd 3 9 (fmupd 5 9 fmempty)) = 9"
  by (simp add: merged_of_def byId_def findMergeRoot_def findMergeRoot_loop.simps
      binary64_add_small)

subsection \<open>Visibility\<close>

text \<open>Every aggregated entry is either in the visible list or in the hidden list.\<close>

lemma visible_hidden_partition:
  "mset (hiddenGamesList games hidden) + mset (visibleGames games hidden) = mset games"
  by (simp add: hiddenGamesList_def visibleGames_def)

text \<open>The filter looks at the \<open>appid\<close> field of the entries and at nothing else.\<close>

lemma visibleGames_toggle_other:
  assumes "a \<notin> appid ` set games"
  shows "visibleGames games (toggleHide a hidden) = visibleGames games hidden"
  unfolding visibleGames_def
  using assms by (intro filter_cong) (auto simp: toggleHide_def)

text \<open>
  When every root is among the titles, the appids of the entries are roots of
  titles.
\<close>

lemma entry_appids_are_roots:
  assumes present: "\<forall>g \<in> set base. findMergeRoot (appid g) mm \<in> appid ` set base"
    and mem: "a \<in> appid ` set (games_of base mm)"
  shows "a \<in> (\<lambda>g. findMergeRoot (appid g) mm) ` set base"
proof -
  obtain r e where entry: "(r, e) \<in> set (merged_of base mm)" and a: "a = appid e"
    using mem by (auto simp: games_of_def)
  have root: "r \<in> (\<lambda>g. findMergeRoot (appid g) mm) ` set base"
    using entry merged_of_keys [of base mm] by force
  then have "r \<in> appid ` set base"
    using present by auto
  then have "appid e = r"
    using entry by (rule entry_appid_is_root [rotated])
  then show ?thesis
    using root a by simp
qed

lemma one_edge_reaches:
  "reaches m a b \<Longrightarrow> m = fmupd x y fmempty \<Longrightarrow> a = x \<and> b = y"
  by (induction rule: reaches.induct) (auto split: if_splits)

lemma one_edge_acyclic: "x \<noteq> y \<Longrightarrow> \<not> cyclic (fmupd x y fmempty)"
  unfolding cyclic_def by (auto dest: one_edge_reaches)

text \<open>
  Claim C10, as amended. Let the merge map have no cycle, and let the root of every
  title be among the titles. Then an appid that has an outgoing edge, and any other
  appid that is the root of no title, is the appid of no aggregated entry, and
  toggling it changes neither the visible list nor the ranked selection made from it:
  the entries carry the roots of the titles, and the filter tests the appids of the
  entries.
\<close>

theorem toggleHide_merged_source_feed:
  assumes acyc: "\<not> cyclic mm"
    and present: "\<forall>g \<in> set base. findMergeRoot (appid g) mm \<in> appid ` set base"
    and source: "fmlookup mm a \<noteq> None \<or> a \<notin> (\<lambda>g. findMergeRoot (appid g) mm) ` set base"
  shows "a \<notin> appid ` set (games_of base mm)
         \<and> visibleGames (games_of base mm) (toggleHide a hidden)
           = visibleGames (games_of base mm) hidden
         \<and> filtered (visibleGames (games_of base mm) (toggleHide a hidden)) topN showAll
           = filtered (visibleGames (games_of base mm) hidden) topN showAll"
proof -
  have no_root: "a \<notin> (\<lambda>g. findMergeRoot (appid g) mm) ` set base"
  proof
    assume "a \<in> (\<lambda>g. findMergeRoot (appid g) mm) ` set base"
    then obtain g where "g \<in> set base" and "a = findMergeRoot (appid g) mm"
      by auto
    then have "fmlookup mm a = None"
      using acyc by (simp add: findMergeRoot_acyclic)
    then show False
      using source \<open>a \<in> (\<lambda>g. findMergeRoot (appid g) mm) ` set base\<close> by simp
  qed
  have no_entry: "a \<notin> appid ` set (games_of base mm)"
    using entry_appids_are_roots [OF present] no_root by blast
  then have "visibleGames (games_of base mm) (toggleHide a hidden)
               = visibleGames (games_of base mm) hidden"
    by (rule visibleGames_toggle_other)
  then show ?thesis
    using no_entry by simp
qed

text \<open>
  Title 2 is merged into title 1, which is among the titles: the only entry carries
  the appid 1, and toggling 2 changes nothing.
\<close>

theorem toggleHide_merged_source_feed_witness:
  "\<not> cyclic (fmupd 2 1 fmempty)
   \<and> fmlookup (fmupd 2 1 fmempty) 2 = Some 1
   \<and> 2 \<notin> appid ` set (games_of
                      [\<lparr>appid = 1, name = ''A'', hours = 10, img = [], storeUrl = []\<rparr>,
                       \<lparr>appid = 2, name = ''B'', hours = 5, img = [], storeUrl = []\<rparr>]
                      (fmupd 2 1 fmempty))
   \<and> filtered (visibleGames (games_of
                      [\<lparr>appid = 1, name = ''A'', hours = 10, img = [], storeUrl = []\<rparr>,
                       \<lparr>appid = 2, name = ''B'', hours = 5, img = [], storeUrl = []\<rparr>]
                      (fmupd 2 1 fmempty)) (toggleHide 2 {})) 10 False
     = [\<lparr>appid = 1, name = ''A'', hours = 15, img = [], storeUrl = []\<rparr>]"
proof -
  let ?base = "[\<lparr>appid = 1, name = ''A'', hours = 10, img = [], storeUrl = []\<rparr>,
                \<lparr>appid = 2, name = ''B'', hours = 5, img = [], storeUrl = []\<rparr>]"
  let ?mm = "fmupd 2 1 fmempty :: MergeMap"
  have acyc: "\<not> cyclic ?mm"
    by (rule one_edge_acyclic) simp
  have present: "\<forall>g \<in> set ?base. findMergeRoot (appid g) ?mm \<in> appid ` set ?base"
    by (simp add: findMergeRoot_def findMergeRoot_loop.simps)
  have source: "fmlookup ?mm 2 \<noteq> None \<or> 2 \<notin> (\<lambda>g. findMergeRoot (appid g) ?mm) ` set ?base"
    by simp
  show ?thesis
    using acyc toggleHide_merged_source_feed [OF acyc present source, of "{}" 10 False]
    by (simp add: games_of_def merged_of_def byId_def findMergeRoot_def
        findMergeRoot_loop.simps visibleGames_def filtered_def binary64_add_small)
qed

text \<open>
  The claim as stated fails at a root that is not among the titles. Title 5 is merged
  into 9; the map has no cycle, 5 has an outgoing edge, and the one entry is kept under
  the key 9. It carries the appid 5 of its first contributor, and toggling 5 empties
  the visible list.
\<close>

theorem toggleHide_dangling_contributor:
  "\<not> cyclic (fmupd 5 9 fmempty)
   \<and> fmlookup (fmupd 5 9 fmempty) 5 = Some 9
   \<and> merged_of [\<lparr>appid = 5, name = ''Five'', hours = 2, img = [], storeUrl = []\<rparr>]
               (fmupd 5 9 fmempty)
       = [(9, \<lparr>appid = 5, name = ''Five'', hours = 2, img = [], storeUrl = []\<rparr>)]
   \<and> visibleGames (games_of [\<lparr>appid = 5, name = ''Five'', hours = 2, img = [], storeUrl = []\<rparr>]
                            (fmupd 5 9 fmempty)) {}
       = [\<lparr>appid = 5, name = ''Five'', hours = 2, img = [], storeUrl = []\<rparr>]
   \<and> visibleGames (games_of [\<lparr>appid = 5, name = ''Five'', hours = 2, img = [], storeUrl = []\<rparr>]
                            (fmupd 5 9 fmempty)) (toggleHide 5 {})
       = []"
proof -
  have "\<not> cyclic (fmupd 5 9 fmempty)"
    by (rule one_edge_acyclic) simp
  then show ?thesis
    by (simp add: games_of_def merged_of_def byId_def findMergeRoot_def findMergeRoot_loop.simps
        visibleGames_def toggleHide_def)
qed

subsection \<open>Ranking\<close>

text \<open>
  Claim C4, as amended. The selection is in descending order of hours, and the
  entries with the same hours stand in the order they have in the visible list (those
  that the limit cuts off are missing at the end). The appids play no part.
\<close>

theorem filtered_descending_stable:
  "sorted_wrt (\<lambda>a b. hours b \<le> hours a) (filtered visible topN showAll)
   \<and> prefix (filter (\<lambda>g. hours g = h) (filtered visible topN showAll))
            (filter (\<lambda>g. hours g = h) visible)"
proof -
  let ?s = "sort_key (\<lambda>g. - hours g) visible"
  have "sorted (map (\<lambda>g. - hours g) ?s)"
    by (rule sorted_sort_key)
  then have desc: "sorted_wrt (\<lambda>a b. hours b \<le> hours a) ?s"
    by (simp add: sorted_map)
  have "filter (\<lambda>g. - hours g = - h) ?s = filter (\<lambda>g. - hours g = - h) visible"
    by (rule sort_key_stable)
  then have stable: "filter (\<lambda>g. hours g = h) ?s = filter (\<lambda>g. hours g = h) visible"
    by simp
  show ?thesis
  proof (cases showAll)
    case True
    then show ?thesis
      using desc stable by (simp add: filtered_def)
  next
    case False
    have "sorted_wrt (\<lambda>a b. hours b \<le> hours a) (take (nat (max 5 topN)) ?s)"
      using desc by (rule sorted_wrt_take)
    moreover have "prefix (filter (\<lambda>g. hours g = h) (take (nat (max 5 topN)) ?s))
                          (filter (\<lambda>g. hours g = h) ?s)"
      by (rule filter_mono_prefix) (rule take_is_prefix)
    ultimately show ?thesis
      using False stable by (simp add: filtered_def)
  qed
qed

text \<open>
  The claim as stated fails on two entries of one hour each, appid 7 before appid 3
  in the visible list: the selection keeps 7 before 3.
\<close>

theorem filtered_tie_keeps_input_order:
  "filtered [\<lparr>appid = 7, name = ''G'', hours = 1, img = [], storeUrl = []\<rparr>,
             \<lparr>appid = 3, name = ''C'', hours = 1, img = [], storeUrl = []\<rparr>] 10 False
     = [\<lparr>appid = 7, name = ''G'', hours = 1, img = [], storeUrl = []\<rparr>,
        \<lparr>appid = 3, name = ''C'', hours = 1, img = [], storeUrl = []\<rparr>]"
  by (simp add: filtered_def)

text \<open>
  Claim C5. With a numeric limit the selection has \<open>min (max 5 topN) (length visible)\<close>
  entries, so a limit below 5 counts as 5; with \<open>showAll\<close> it has all the entries of
  the visible list.
\<close>

theorem filtered_length:
  "length (filtered visible topN False) = min (nat (max 5 topN)) (length visible)
   \<and> length (filtered visible topN True) = length visible
   \<and> mset (filtered visible topN True) = mset visible"
  by (simp add: filtered_def)

text \<open>Scenario 4 of the specification: three visible entries, limits 2 and 1.\<close>

lemma scenario_limit_below_floor:
  "map appid (filtered [\<lparr>appid = 1, name = ''A'', hours = 15, img = [], storeUrl = []\<rparr>,
                        \<lparr>appid = 3, name = ''C'', hours = 2, img = [], storeUrl = []\<rparr>,
                        \<lparr>appid = 4, name = ''D'', hours = 1, img = [], storeUrl = []\<rparr>] 1 False)
     = [1, 3, 4]"
  by (simp add: filtered_def)

subsection \<open>Initial state from \<open>localStorage\<close>\<close>

text \<open>
  Neither initialiser raises: both are total functions whose \<open>Threw\<close> cases return
  the default. A missing or empty entry, a \<open>getItem\<close> or a \<open>JSON.parse\<close> that throws,
  and a parsed value that is not an array give the empty hidden set.
\<close>

lemma hiddenAppids_init_defaults:
  "hiddenAppids_init (\<lambda>key. Threw) JSON_parse Number = {}"
  "hiddenAppids_init (\<lambda>key. Returned None) JSON_parse Number = {}"
  "hiddenAppids_init (\<lambda>key. Returned (Some [])) JSON_parse Number = {}"
  "JSON_parse raw = Threw \<Longrightarrow>
     hiddenAppids_init (\<lambda>key. Returned (Some raw)) JSON_parse Number = {}"
  "JSON_parse raw = Returned v \<Longrightarrow> \<forall>xs. v \<noteq> JArr xs \<Longrightarrow>
     hiddenAppids_init (\<lambda>key. Returned (Some raw)) JSON_parse Number = {}"
  by (auto simp: hiddenAppids_init_def split: json.splits)

text \<open>
  The same inputs give the empty merge map, and so does a parsed value that is
  \<open>null\<close>, a boolean, a number or a string.
\<close>

lemma mergeMap_init_defaults:
  "mergeMap_init (\<lambda>key. Threw) JSON_parse = JObj []"
  "mergeMap_init (\<lambda>key. Returned None) JSON_parse = JObj []"
  "mergeMap_init (\<lambda>key. Returned (Some [])) JSON_parse = JObj []"
  "JSON_parse raw = Threw \<Longrightarrow> mergeMap_init (\<lambda>key. Returned (Some raw)) JSON_parse = JObj []"
  "JSON_parse raw = Returned v \<Longrightarrow> \<not> typeof_object v \<or> v = JNull \<Longrightarrow>
     mergeMap_init (\<lambda>key. Returned (Some raw)) JSON_parse = JObj []"
  by (auto simp: mergeMap_init_def)

text \<open>
  Claim C6 (fails on the code). The entry \<open>mergeMap\<close> holds the text \<open>[5]\<close>, which
  \<open>JSON.parse\<close> turns into the array with the one element 5. An array is truthy and
  its \<open>typeof\<close> is \<open>"object"\<close>: the initialiser returns the array as the merge map, not
  the empty map.
\<close>

theorem mergeMap_init_keeps_array:
  "mergeMap_init (\<lambda>key. Returned (Some ''[5]'')) (\<lambda>raw. Returned (JArr [JNum 5]))
     = JArr [JNum 5]"
  by (simp add: mergeMap_init_def)

end
